theory Spec2Isabelle
  imports Main "HOL-Library.Word"
begin

unbundle bit_operations_syntax

section \<open>The solver of contests/2110/A/main.cpp\<close>

text \<open>
  The program reads a number of test cases \<open>t\<close>; for each it reads \<open>n\<close>, then \<open>n\<close>
  values into a \<open>vector<int>\<close>, and prints one \<open>int\<close>. All program variables are
  C++ \<open>int\<close>, taken here as 32-bit two's complement words: \<open>+\<close> wraps, the
  comparisons \<open><\<close>, \<open>>\<close> of the source are the signed ones (\<open><s\<close>), and
  \<open>sint\<close> reads the value that \<open>cout\<close> prints.
\<close>

type_synonym cint = "32 word"

definition INT_MAX :: cint where
  "INT_MAX = 2147483647"

definition INT_MIN :: cint where
  "INT_MIN = - 2147483648"

text \<open>\<open>std::min(a, b)\<close> is \<open>(b < a) ? b : a\<close>, \<open>std::max(a, b)\<close> is \<open>(a < b) ? b : a\<close>.\<close>

definition std_min :: "cint \<Rightarrow> cint \<Rightarrow> cint" where
  "std_min a b = (if b <s a then b else a)"

definition std_max :: "cint \<Rightarrow> cint \<Rightarrow> cint" where
  "std_max a b = (if a <s b then b else a)"

subsection \<open>First pass: minimum and maximum of each parity (lines 21 to 33)\<close>

record bounds =
  minEven :: cint
  maxEven :: cint
  minOdd :: cint
  maxOdd :: cint

definition init_bounds :: bounds where
  "init_bounds = \<lparr>minEven = INT_MAX, maxEven = INT_MIN, minOdd = INT_MAX, maxOdd = INT_MIN\<rparr>"

text \<open>The loop body: \<open>x & 1\<close> is true when it is not zero.\<close>

definition scan_step :: "cint \<Rightarrow> bounds \<Rightarrow> bounds" where
  "scan_step x s =
     (if x AND 1 \<noteq> 0
      then s\<lparr>minOdd := std_min (minOdd s) x, maxOdd := std_max (maxOdd s) x\<rparr>
      else s\<lparr>minEven := std_min (minEven s) x, maxEven := std_max (maxEven s) x\<rparr>)"

definition scan :: "cint list \<Rightarrow> bounds" where
  "scan a = fold scan_step a init_bounds"

subsection \<open>Second pass: elements outside a range (lines 39 to 44 and 50 to 57)\<close>

definition count_step :: "cint \<Rightarrow> cint \<Rightarrow> cint \<Rightarrow> cint \<Rightarrow> cint" where
  "count_step lo hi x remove = (if x <s lo \<or> hi <s x then remove + 1 else remove)"

definition count_outside :: "cint \<Rightarrow> cint \<Rightarrow> cint list \<Rightarrow> cint" where
  "count_outside lo hi a = fold (count_step lo hi) a 0"

subsection \<open>One test case (lines 21 to 60)\<close>

text \<open>
  \<open>solve n a\<close> is the value printed for the vector \<open>a\<close>, which the source creates with
  \<open>n\<close> elements; \<open>n\<close> is used once more, as the first value of \<open>ans\<close>.
\<close>

definition solve :: "cint \<Rightarrow> cint list \<Rightarrow> cint" where
  "solve n a =
     (let s = scan a;
          ans = n;
          ans = (if minEven s \<noteq> INT_MAX
                 then std_min ans (count_outside (minEven s) (maxEven s) a) else ans);
          ans = (if minOdd s \<noteq> INT_MAX
                 then std_min ans (count_outside (minOdd s) (maxOdd s) a) else ans)
      in ans)"

subsection \<open>The input stream and the loop over the test cases (lines 12 to 61)\<close>

text \<open>
  The input is the list of the integers that \<open>cin >> _\<close> extracts, in order. An
  extraction at the end of the input leaves its variable as it was: an element of the
  freshly created vector stays 0, while \<open>t\<close> and \<open>n\<close>, declared without a
  value, are then read indeterminate. A negative \<open>n\<close> makes the vector's constructor
  throw, and \<open>t--\<close> at the least \<open>int\<close> overflows.
\<close>

datatype error = Indeterminate_Read | Length_Error | Signed_Overflow

definition read_case :: "cint list \<Rightarrow> error + (cint \<times> cint list \<times> cint list)" where
  "read_case ts =
     (case ts of
        [] \<Rightarrow> Inl Indeterminate_Read
      | n # rest \<Rightarrow>
          if n <s 0 then Inl Length_Error
          else Inr (n, take (unat n) rest @ replicate (unat n - length rest) 0,
                    drop (unat n) rest))"

function main_loop :: "cint \<Rightarrow> cint list \<Rightarrow> error + cint list" where
  "main_loop t ts =
     (if t = 0 then Inr []
      else if t = INT_MIN then Inl Signed_Overflow
      else case read_case ts of
             Inl e \<Rightarrow> Inl e
           | Inr (n, a, rest) \<Rightarrow>
               (case main_loop (t - 1) rest of
                  Inl e \<Rightarrow> Inl e
                | Inr outs \<Rightarrow> Inr (solve n a # outs)))"
  by pat_completeness auto
termination
  by (relation "measure (\<lambda>(t, ts). unat t)") (auto simp: unat_minus_one unat_gt_0)

declare main_loop.simps [simp del]

definition main :: "cint list \<Rightarrow> error + cint list" where
  "main input = (case input of [] \<Rightarrow> Inl Indeterminate_Read | t # ts \<Rightarrow> main_loop t ts)"

subsection \<open>The input of a batch of test cases\<close>

text \<open>
  The input format: the number of test cases, then for each test case its length
  followed by its values.
\<close>

definition encode_case :: "cint list \<Rightarrow> cint list" where
  "encode_case a = of_nat (length a) # a"

definition encode_batch :: "cint list list \<Rightarrow> cint list" where
  "encode_batch cs = of_nat (length cs) # concat (map encode_case cs)"

subsection \<open>Parity classes and the quantities the specification names\<close>

text \<open>The parity of an element is the parity of its value as an integer.\<close>

definition evens :: "cint list \<Rightarrow> cint list" where
  "evens a = filter (\<lambda>x. even (sint x)) a"

definition odds :: "cint list \<Rightarrow> cint list" where
  "odds a = filter (\<lambda>x. odd (sint x)) a"

text \<open>
  The answer in the specification's words: for each non-empty parity class the
  candidate is the total count minus the size of the class; the answer is the least
  candidate.
\<close>

definition spec_candidates :: "cint list \<Rightarrow> int list" where
  "spec_candidates a =
     (if evens a \<noteq> [] then [int (length a) - int (length (evens a))] else []) @
     (if odds a \<noteq> [] then [int (length a) - int (length (odds a))] else [])"

definition spec_answer :: "cint list \<Rightarrow> int" where
  "spec_answer a = Min (set (spec_candidates a))"

text \<open>
  The candidate of a non-empty parity class, as the passes are written: the number of
  elements of the other class whose value is below the least or above the greatest
  value of the class.
\<close>

definition outside_range :: "cint list \<Rightarrow> cint \<Rightarrow> bool" where
  "outside_range c x = (sint x < Min (sint ` set c) \<or> Max (sint ` set c) < sint x)"

definition range_removals :: "cint list \<Rightarrow> cint list \<Rightarrow> int" where
  "range_removals c others = int (length (filter (outside_range c) others))"

definition range_candidates :: "cint list \<Rightarrow> int list" where
  "range_candidates a =
     (if evens a \<noteq> [] then [range_removals (evens a) (odds a)] else []) @
     (if odds a \<noteq> [] then [range_removals (odds a) (evens a)] else [])"

text \<open>
  When the guard of a pass lets it run, as the lemmas \<open>even_guard\<close> and
  \<open>odd_guard\<close> below show of the code: the class has an element other than
  \<open>INT_MAX\<close>.
\<close>

definition below_sentinel :: "cint list \<Rightarrow> bool" where
  "below_sentinel c = (\<exists>x \<in> set c. x \<noteq> INT_MAX)"

section \<open>Words as integers\<close>

lemma odd_word_sint: "odd (sint x) = odd x" for x :: cint
  using bit_sint_iff [of x 0] by (simp add: bit_0)

lemma and_one_odd: "(x AND 1 \<noteq> 0) = odd (sint x)" for x :: cint
  unfolding odd_word_sint and_one_eq by (simp add: even_iff_mod_2_eq_zero)

lemma sint_INT_MAX: "sint INT_MAX = 2147483647"
  by (simp add: INT_MAX_def)

lemma sint_INT_MIN: "sint INT_MIN = - 2147483648"
  by (simp add: INT_MIN_def)

lemma sint_le_INT_MAX: "sint x \<le> 2147483647" for x :: cint
  using sint_lt [of x] by simp

lemma sint_ge_INT_MIN: "- 2147483648 \<le> sint x" for x :: cint
  using sint_ge [of x] by simp

lemma sint_eq_iff: "sint x = sint y \<longleftrightarrow> x = y" for x y :: cint
  by (auto intro: signed_word_eqI)

lemma sint_std_min: "sint (std_min a b) = min (sint a) (sint b)"
  by (simp add: std_min_def word_sless_alt min_def)

lemma sint_std_max: "sint (std_max a b) = max (sint a) (sint b)"
  by (simp add: std_max_def word_sless_alt max_def)

lemma sint_of_nat_small: "k < 2147483648 \<Longrightarrow> sint (of_nat k :: cint) = int k"
  by (simp add: signed_of_nat signed_take_bit_int_eq_self_iff)

lemma odd_INT_MAX: "odd (sint INT_MAX)"
  by (simp add: sint_INT_MAX)

lemma even_INT_MIN: "even (sint INT_MIN)"
  by (simp add: sint_INT_MIN)

section \<open>The first pass\<close>

lemma fold_min_le_init:
  "sint (fold (\<lambda>x m. if P x then std_min m x else m) a m0) \<le> sint m0"
proof (induction a arbitrary: m0)
  case Nil
  show ?case by simp
next
  case (Cons y a)
  have "sint (fold (\<lambda>x m. if P x then std_min m x else m) a (if P y then std_min m0 y else m0))
          \<le> sint (if P y then std_min m0 y else m0)"
    by (rule Cons.IH)
  also have "\<dots> \<le> sint m0"
    by (simp add: sint_std_min)
  finally show ?case by simp
qed

lemma fold_min_le_elem:
  "x \<in> set a \<Longrightarrow> P x \<Longrightarrow> sint (fold (\<lambda>x m. if P x then std_min m x else m) a m0) \<le> sint x"
proof (induction a arbitrary: m0)
  case Nil
  then show ?case by simp
next
  case (Cons y a)
  show ?case
  proof (cases "x \<in> set a")
    case True
    with Cons show ?thesis by simp
  next
    case False
    with Cons.prems have xy: "y = x" by simp
    have "sint (fold (\<lambda>x m. if P x then std_min m x else m) a (std_min m0 x)) \<le> sint (std_min m0 x)"
      by (rule fold_min_le_init)
    also have "\<dots> \<le> sint x"
      by (simp add: sint_std_min)
    finally show ?thesis using xy Cons.prems by simp
  qed
qed

lemma fold_min_cases:
  "fold (\<lambda>x m. if P x then std_min m x else m) a m0 = m0 \<or>
   (fold (\<lambda>x m. if P x then std_min m x else m) a m0 \<in> set a \<and>
    P (fold (\<lambda>x m. if P x then std_min m x else m) a m0))"
proof (induction a arbitrary: m0)
  case Nil
  show ?case by simp
next
  case (Cons y a)
  from Cons.IH [of "if P y then std_min m0 y else m0"]
  show ?case by (auto simp: std_min_def split: if_splits)
qed

lemma fold_max_ge_init:
  "sint m0 \<le> sint (fold (\<lambda>x m. if P x then std_max m x else m) a m0)"
proof (induction a arbitrary: m0)
  case Nil
  show ?case by simp
next
  case (Cons y a)
  have "sint m0 \<le> sint (if P y then std_max m0 y else m0)"
    by (simp add: sint_std_max)
  also have "\<dots> \<le> sint (fold (\<lambda>x m. if P x then std_max m x else m) a (if P y then std_max m0 y else m0))"
    by (rule Cons.IH)
  finally show ?case by simp
qed

lemma fold_max_ge_elem:
  "x \<in> set a \<Longrightarrow> P x \<Longrightarrow> sint x \<le> sint (fold (\<lambda>x m. if P x then std_max m x else m) a m0)"
proof (induction a arbitrary: m0)
  case Nil
  then show ?case by simp
next
  case (Cons y a)
  show ?case
  proof (cases "x \<in> set a")
    case True
    with Cons show ?thesis by simp
  next
    case False
    with Cons.prems have xy: "y = x" by simp
    have "sint x \<le> sint (std_max m0 x)"
      by (simp add: sint_std_max)
    also have "\<dots> \<le> sint (fold (\<lambda>x m. if P x then std_max m x else m) a (std_max m0 x))"
      by (rule fold_max_ge_init)
    finally show ?thesis using xy Cons.prems by simp
  qed
qed

lemma fold_max_cases:
  "fold (\<lambda>x m. if P x then std_max m x else m) a m0 = m0 \<or>
   (fold (\<lambda>x m. if P x then std_max m x else m) a m0 \<in> set a \<and>
    P (fold (\<lambda>x m. if P x then std_max m x else m) a m0))"
proof (induction a arbitrary: m0)
  case Nil
  show ?case by simp
next
  case (Cons y a)
  from Cons.IH [of "if P y then std_max m0 y else m0"]
  show ?case by (auto simp: std_max_def split: if_splits)
qed

text \<open>Each field of the record is folded on its own.\<close>

lemma minEven_fold:
  "minEven (fold scan_step a s) =
     fold (\<lambda>x m. if even (sint x) then std_min m x else m) a (minEven s)"
  by (induction a arbitrary: s) (simp_all add: scan_step_def and_one_odd)

lemma maxEven_fold:
  "maxEven (fold scan_step a s) =
     fold (\<lambda>x m. if even (sint x) then std_max m x else m) a (maxEven s)"
  by (induction a arbitrary: s) (simp_all add: scan_step_def and_one_odd)

lemma minOdd_fold:
  "minOdd (fold scan_step a s) =
     fold (\<lambda>x m. if odd (sint x) then std_min m x else m) a (minOdd s)"
  by (induction a arbitrary: s) (simp_all add: scan_step_def and_one_odd)

lemma maxOdd_fold:
  "maxOdd (fold scan_step a s) =
     fold (\<lambda>x m. if odd (sint x) then std_max m x else m) a (maxOdd s)"
  by (induction a arbitrary: s) (simp_all add: scan_step_def and_one_odd)

lemma scan_minEven_le: "x \<in> set a \<Longrightarrow> even (sint x) \<Longrightarrow> sint (minEven (scan a)) \<le> sint x"
  unfolding scan_def minEven_fold by (rule fold_min_le_elem)

lemma scan_maxEven_ge: "x \<in> set a \<Longrightarrow> even (sint x) \<Longrightarrow> sint x \<le> sint (maxEven (scan a))"
  unfolding scan_def maxEven_fold by (rule fold_max_ge_elem)

lemma scan_minOdd_le: "x \<in> set a \<Longrightarrow> odd (sint x) \<Longrightarrow> sint (minOdd (scan a)) \<le> sint x"
  unfolding scan_def minOdd_fold by (rule fold_min_le_elem)

lemma scan_maxOdd_ge: "x \<in> set a \<Longrightarrow> odd (sint x) \<Longrightarrow> sint x \<le> sint (maxOdd (scan a))"
  unfolding scan_def maxOdd_fold by (rule fold_max_ge_elem)

lemma scan_minEven_cases: "minEven (scan a) = INT_MAX \<or> minEven (scan a) \<in> set (evens a)"
  using fold_min_cases [of "\<lambda>x. even (sint x)" a INT_MAX]
  by (simp add: scan_def minEven_fold init_bounds_def evens_def)

lemma scan_maxEven_cases: "maxEven (scan a) = INT_MIN \<or> maxEven (scan a) \<in> set (evens a)"
  using fold_max_cases [of "\<lambda>x. even (sint x)" a INT_MIN]
  by (simp add: scan_def maxEven_fold init_bounds_def evens_def)

lemma scan_minOdd_cases: "minOdd (scan a) = INT_MAX \<or> minOdd (scan a) \<in> set (odds a)"
  using fold_min_cases [of "\<lambda>x. odd (sint x)" a INT_MAX]
  by (simp add: scan_def minOdd_fold init_bounds_def odds_def)

lemma scan_maxOdd_cases: "maxOdd (scan a) = INT_MIN \<or> maxOdd (scan a) \<in> set (odds a)"
  using fold_max_cases [of "\<lambda>x. odd (sint x)" a INT_MIN]
  by (simp add: scan_def maxOdd_fold init_bounds_def odds_def)

text \<open>The guards: the even one is exact, the odd one misses a class of \<open>INT_MAX\<close> only.\<close>

lemma even_guard: "minEven (scan a) \<noteq> INT_MAX \<longleftrightarrow> evens a \<noteq> []"
proof
  assume "minEven (scan a) \<noteq> INT_MAX"
  with scan_minEven_cases [of a] show "evens a \<noteq> []" by auto
next
  assume "evens a \<noteq> []"
  then obtain x where x: "x \<in> set a" "even (sint x)"
    by (auto simp: evens_def filter_empty_conv)
  have "sint (minEven (scan a)) \<le> sint x"
    using x by (rule scan_minEven_le)
  moreover have "sint x \<noteq> sint INT_MAX"
    using x(2) odd_INT_MAX by metis
  moreover have "sint x \<le> sint INT_MAX"
    using sint_le_INT_MAX [of x] by (simp add: sint_INT_MAX)
  ultimately have "sint (minEven (scan a)) \<noteq> sint INT_MAX" by linarith
  then show "minEven (scan a) \<noteq> INT_MAX" by auto
qed

lemma below_sentinel_evens: "below_sentinel (evens a) \<longleftrightarrow> evens a \<noteq> []"
proof -
  have "x \<noteq> INT_MAX" if "x \<in> set (evens a)" for x
    using that odd_INT_MAX by (auto simp: evens_def)
  then show ?thesis
    unfolding below_sentinel_def by (cases "evens a") auto
qed

lemma odd_guard: "minOdd (scan a) \<noteq> INT_MAX \<longleftrightarrow> below_sentinel (odds a)"
proof
  assume "minOdd (scan a) \<noteq> INT_MAX"
  with scan_minOdd_cases [of a] show "below_sentinel (odds a)"
    unfolding below_sentinel_def by auto
next
  assume "below_sentinel (odds a)"
  then obtain x where x: "x \<in> set a" "odd (sint x)" "x \<noteq> INT_MAX"
    by (auto simp: below_sentinel_def odds_def)
  have "sint (minOdd (scan a)) \<le> sint x"
    using x(1,2) by (rule scan_minOdd_le)
  moreover have "sint x \<noteq> sint INT_MAX"
    using x(3) by (simp add: sint_eq_iff)
  moreover have "sint x \<le> sint INT_MAX"
    using sint_le_INT_MAX [of x] by (simp add: sint_INT_MAX)
  ultimately have "sint (minOdd (scan a)) \<noteq> sint INT_MAX" by linarith
  then show "minOdd (scan a) \<noteq> INT_MAX" by auto
qed

text \<open>The bounds of a non-empty class are its least and greatest values.\<close>

lemma minEven_Min: "evens a \<noteq> [] \<Longrightarrow> sint (minEven (scan a)) = Min (sint ` set (evens a))"
proof -
  assume ne: "evens a \<noteq> []"
  then have "minEven (scan a) \<noteq> INT_MAX" by (simp add: even_guard)
  with scan_minEven_cases [of a] have "minEven (scan a) \<in> set (evens a)" by simp
  moreover have "sint (minEven (scan a)) \<le> sint x" if "x \<in> set (evens a)" for x
    using that by (auto simp: evens_def intro: scan_minEven_le)
  ultimately show ?thesis
    by (intro Min_eqI [symmetric]) auto
qed

lemma maxEven_Max: "evens a \<noteq> [] \<Longrightarrow> sint (maxEven (scan a)) = Max (sint ` set (evens a))"
proof -
  assume ne: "evens a \<noteq> []"
  then obtain y where y: "y \<in> set (evens a)" by (cases "evens a") auto
  have ge: "sint x \<le> sint (maxEven (scan a))" if "x \<in> set (evens a)" for x
    using that by (auto simp: evens_def intro: scan_maxEven_ge)
  have "maxEven (scan a) \<in> set (evens a)"
  proof (cases "maxEven (scan a) = INT_MIN")
    case True
    with ge [OF y] sint_ge_INT_MIN [of y] have "sint y = sint INT_MIN"
      by (simp add: sint_INT_MIN)
    then have "y = INT_MIN" by (simp add: sint_eq_iff)
    with y True show ?thesis by simp
  next
    case False
    with scan_maxEven_cases [of a] show ?thesis by simp
  qed
  with ge show ?thesis
    by (intro Max_eqI [symmetric]) auto
qed

lemma minOdd_Min: "odds a \<noteq> [] \<Longrightarrow> sint (minOdd (scan a)) = Min (sint ` set (odds a))"
proof -
  assume ne: "odds a \<noteq> []"
  then obtain y where y: "y \<in> set (odds a)" by (cases "odds a") auto
  have le: "sint (minOdd (scan a)) \<le> sint x" if "x \<in> set (odds a)" for x
    using that by (auto simp: odds_def intro: scan_minOdd_le)
  have "minOdd (scan a) \<in> set (odds a)"
  proof (cases "minOdd (scan a) = INT_MAX")
    case True
    with le [OF y] sint_le_INT_MAX [of y] have "sint y = sint INT_MAX"
      by (simp add: sint_INT_MAX)
    then have "y = INT_MAX" by (simp add: sint_eq_iff)
    with y True show ?thesis by simp
  next
    case False
    with scan_minOdd_cases [of a] show ?thesis by simp
  qed
  with le show ?thesis
    by (intro Min_eqI [symmetric]) auto
qed

lemma maxOdd_Max: "odds a \<noteq> [] \<Longrightarrow> sint (maxOdd (scan a)) = Max (sint ` set (odds a))"
proof -
  assume ne: "odds a \<noteq> []"
  then obtain y where y: "y \<in> set (odds a)" by (cases "odds a") auto
  have ge: "sint x \<le> sint (maxOdd (scan a))" if "x \<in> set (odds a)" for x
    using that by (auto simp: odds_def intro: scan_maxOdd_ge)
  have "maxOdd (scan a) \<noteq> INT_MIN"
  proof
    assume m: "maxOdd (scan a) = INT_MIN"
    with ge [OF y] sint_ge_INT_MIN [of y] have "sint y = sint INT_MIN"
      by (simp add: sint_INT_MIN)
    moreover have "odd (sint y)" using y by (simp add: odds_def)
    ultimately show False using even_INT_MIN by simp
  qed
  with scan_maxOdd_cases [of a] have "maxOdd (scan a) \<in> set (odds a)" by simp
  with ge show ?thesis
    by (intro Max_eqI [symmetric]) auto
qed

section \<open>The second pass\<close>

lemma fold_count_step:
  "fold (count_step lo hi) a r = r + of_nat (length (filter (\<lambda>x. x <s lo \<or> hi <s x) a))"
  by (induction a arbitrary: r) (simp_all add: count_step_def)

lemma count_outside_filter:
  "count_outside lo hi a = of_nat (length (filter (\<lambda>x. x <s lo \<or> hi <s x) a))"
  by (simp add: count_outside_def fold_count_step)

lemma sint_count_outside:
  assumes "length a < 2147483648"
  shows "sint (count_outside lo hi a) = int (length (filter (\<lambda>x. x <s lo \<or> hi <s x) a))"
proof -
  have "length (filter (\<lambda>x. x <s lo \<or> hi <s x) a) \<le> length a"
    by (rule length_filter_le)
  with assms have "length (filter (\<lambda>x. x <s lo \<or> hi <s x) a) < 2147483648" by linarith
  then show ?thesis
    by (simp only: count_outside_filter sint_of_nat_small)
qed

lemma length_filter_parity:
  "length (filter P a) = length (filter P (evens a)) + length (filter P (odds a))"
  by (induction a) (simp_all add: evens_def odds_def)

lemma range_removals_le: "range_removals c others \<le> int (length others)"
  by (simp add: range_removals_def)

lemma range_removals_ge: "0 \<le> range_removals c others"
  by (simp add: range_removals_def)

lemma length_evens_le: "length (evens a) \<le> length a"
  by (simp add: evens_def)

lemma length_odds_le: "length (odds a) \<le> length a"
  by (simp add: odds_def)

lemma even_pass_inside:
  "x \<in> set (evens a) \<Longrightarrow> \<not> (x <s minEven (scan a) \<or> maxEven (scan a) <s x)"
  using scan_minEven_le [of x a] scan_maxEven_ge [of x a]
  by (auto simp: evens_def word_sless_alt)

lemma odd_pass_inside:
  "x \<in> set (odds a) \<Longrightarrow> \<not> (x <s minOdd (scan a) \<or> maxOdd (scan a) <s x)"
  using scan_minOdd_le [of x a] scan_maxOdd_ge [of x a]
  by (auto simp: odds_def word_sless_alt)

lemma even_pass_filter:
  "filter (\<lambda>x. x <s minEven (scan a) \<or> maxEven (scan a) <s x) (evens a) = []"
  using even_pass_inside [of _ a] by (simp add: filter_empty_conv)

lemma odd_pass_filter:
  "filter (\<lambda>x. x <s minOdd (scan a) \<or> maxOdd (scan a) <s x) (odds a) = []"
  using odd_pass_inside [of _ a] by (simp add: filter_empty_conv)

lemma even_pass_count:
  assumes "evens a \<noteq> []" and "length a < 2147483648"
  shows "sint (count_outside (minEven (scan a)) (maxEven (scan a)) a)
           = range_removals (evens a) (odds a)"
proof -
  have "(\<lambda>x. x <s minEven (scan a) \<or> maxEven (scan a) <s x) = outside_range (evens a)"
    using assms(1) by (simp add: fun_eq_iff outside_range_def word_sless_alt minEven_Min maxEven_Max)
  then show ?thesis
    using assms(2) length_filter_parity [of "outside_range (evens a)" a] even_pass_filter [of a]
    by (simp add: sint_count_outside range_removals_def)
qed

lemma odd_pass_count:
  assumes "odds a \<noteq> []" and "length a < 2147483648"
  shows "sint (count_outside (minOdd (scan a)) (maxOdd (scan a)) a)
           = range_removals (odds a) (evens a)"
proof -
  have "(\<lambda>x. x <s minOdd (scan a) \<or> maxOdd (scan a) <s x) = outside_range (odds a)"
    using assms(1) by (simp add: fun_eq_iff outside_range_def word_sless_alt minOdd_Min maxOdd_Max)
  then show ?thesis
    using assms(2) length_filter_parity [of "outside_range (odds a)" a] odd_pass_filter [of a]
    by (simp add: sint_count_outside range_removals_def)
qed

lemma below_sentinel_nonempty: "below_sentinel c \<Longrightarrow> c \<noteq> []"
  by (auto simp: below_sentinel_def)

lemma length_of_sint: "sint (n :: cint) = int (length a) \<Longrightarrow> length a < 2147483648"
  using sint_le_INT_MAX [of n] by simp

text \<open>The printed value of one test case, as an integer.\<close>

lemma solve_sint:
  assumes "sint n = int (length a)"
  shows "sint (solve n a) =
     (let ans = int (length a);
          ans = (if below_sentinel (evens a) then min ans (range_removals (evens a) (odds a)) else ans)
      in if below_sentinel (odds a) then min ans (range_removals (odds a) (evens a)) else ans)"
proof -
  have len: "length a < 2147483648"
    using assms by (rule length_of_sint)
  have e: "sint (count_outside (minEven (scan a)) (maxEven (scan a)) a)
             = range_removals (evens a) (odds a)" if "below_sentinel (evens a)"
    using that len by (intro even_pass_count below_sentinel_nonempty)
  have o: "sint (count_outside (minOdd (scan a)) (maxOdd (scan a)) a)
             = range_removals (odds a) (evens a)" if "below_sentinel (odds a)"
    using that len by (intro odd_pass_count below_sentinel_nonempty)
  show ?thesis
    using assms e o
    by (simp add: solve_def Let_def even_guard odd_guard below_sentinel_evens [symmetric] sint_std_min)
qed

section \<open>The loop over the test cases\<close>

lemma unat_of_nat_small: "k < 2147483648 \<Longrightarrow> unat (of_nat k :: cint) = k"
  by (simp add: unat_of_nat)

lemma read_case_encode:
  assumes "length c < 2147483648"
  shows "read_case (encode_case c @ rest) = Inr (of_nat (length c), c, rest)"
  using assms
  by (simp add: read_case_def encode_case_def word_sless_alt sint_of_nat_small unat_of_nat_small)

lemma loop_counter_step:
  assumes "Suc k < 2147483648"
  shows "(of_nat (Suc k) :: cint) \<noteq> 0" and "(of_nat (Suc k) :: cint) \<noteq> INT_MIN"
    and "(of_nat (Suc k) :: cint) - 1 = of_nat k"
proof -
  have s: "sint (of_nat (Suc k) :: cint) = int (Suc k)"
    using assms by (rule sint_of_nat_small)
  show "(of_nat (Suc k) :: cint) \<noteq> 0"
    using s by auto
  show "(of_nat (Suc k) :: cint) \<noteq> INT_MIN"
    using s sint_INT_MIN by auto
  show "(of_nat (Suc k) :: cint) - 1 = of_nat k"
    by simp
qed

lemma main_loop_batch:
  assumes "length cs < 2147483648" and "\<forall>c \<in> set cs. length c < 2147483648"
  shows "main_loop (of_nat (length cs)) (concat (map encode_case cs) @ rest)
           = Inr (map (\<lambda>c. solve (of_nat (length c)) c) cs)"
  using assms
proof (induction cs)
  case Nil
  show ?case by (simp add: main_loop.simps)
next
  case (Cons c cs)
  have k: "Suc (length cs) < 2147483648"
    using Cons.prems(1) by simp
  have rd: "read_case (encode_case c @ concat (map encode_case cs) @ rest)
              = Inr (of_nat (length c), c, concat (map encode_case cs) @ rest)"
    using Cons.prems(2) by (intro read_case_encode) simp
  have ih: "main_loop (of_nat (length cs)) (concat (map encode_case cs) @ rest)
              = Inr (map (\<lambda>c. solve (of_nat (length c)) c) cs)"
    using Cons.prems by (intro Cons.IH) simp_all
  have "main_loop (of_nat (Suc (length cs))) (encode_case c @ concat (map encode_case cs) @ rest)
          = Inr (solve (of_nat (length c)) c # map (\<lambda>c. solve (of_nat (length c)) c) cs)"
    by (subst main_loop.simps) (simp only: loop_counter_step [OF k] rd ih if_False sum.case prod.case)
  then show ?case by simp
qed

lemma main_batch:
  assumes "length cs < 2147483648" and "\<forall>c \<in> set cs. length c < 2147483648"
  shows "main (encode_batch cs) = Inr (map (\<lambda>c. solve (of_nat (length c)) c) cs)"
  using main_loop_batch [OF assms, of "[]"] by (simp add: main_def encode_batch_def)


lemma sint_nonneg_unat: "0 \<le> sint n \<Longrightarrow> sint n = int (unat n)" for n :: cint
proof -
  assume nn: "0 \<le> sint n"
  have "sint n < 2 ^ 32"
    using sint_le_INT_MAX [of n] by simp
  with nn have "take_bit 32 (sint n) = sint n"
    by (simp add: take_bit_int_eq_self)
  then have "uint n = sint n"
    by (simp add: uint_sint)
  then show ?thesis by simp
qed

lemma read_case_length:
  assumes "read_case ts = Inr (n, a, rest)"
  shows "sint n = int (length a)"
proof -
  from assms obtain r where ts: "ts = n # r" and nn: "\<not> n <s 0"
    and a: "a = take (unat n) r @ replicate (unat n - length r) 0"
    by (auto simp: read_case_def split: list.splits if_splits)
  from nn have "0 \<le> sint n"
    by (simp add: word_sless_alt)
  then have "sint n = int (unat n)"
    by (rule sint_nonneg_unat)
  moreover have "length a = unat n"
    unfolding a by simp
  ultimately show ?thesis by simp
qed

section \<open>Evaluating the program on given inputs\<close>

lemmas run_defs = solve_def scan_def scan_step_def init_bounds_def std_min_def std_max_def
  count_outside_def count_step_def INT_MAX_def INT_MIN_def word_sless_alt

lemma below_sentinel_parity: "below_sentinel a \<longleftrightarrow> below_sentinel (evens a) \<or> below_sentinel (odds a)"
  by (auto simp: below_sentinel_def evens_def odds_def)

lemma sint_zero_iff: "sint (w :: cint) = 0 \<longleftrightarrow> w = 0"
  using sint_eq_iff [of w 0] by simp

section \<open>The claims\<close>

subsection \<open>C1: the answer as a minimum over the parity classes\<close>

text \<open>
  The answer is not the least number of elements of the opposite parity: in
  \<open>[3, 4, 5]\<close> the odd class keeps 3 and 5, the even element 4 lies between them and
  is not counted, and the program prints 0, where the count of opposite parities gives 1.
\<close>

theorem parity_count_counterexample:
  "sint (solve 3 [3, 4, 5]) \<noteq> spec_answer [3, 4, 5]"
  by (simp add: run_defs spec_answer_def spec_candidates_def evens_def odds_def)

text \<open>
  C1 (amended). For every non-empty input sequence of \<open>n\<close> elements whose odd
  elements, if there are any, are not all \<open>INT_MAX\<close>, the printed answer is the
  least, over the non-empty parity classes, of the number of elements of the opposite
  parity whose value is below the least or above the greatest value of the class.
\<close>

theorem answer_least_range_candidate:
  assumes "sint n = int (length a)" and "a \<noteq> []"
    and "odds a \<noteq> [] \<longrightarrow> (\<exists>x \<in> set (odds a). x \<noteq> INT_MAX)"
  shows "sint (solve n a) = Min (set (range_candidates a))"
proof -
  define E where "E = range_removals (evens a) (odds a)"
  define D where "D = range_removals (odds a) (evens a)"
  have e: "E \<le> int (length a)"
    unfolding E_def using range_removals_le [of "evens a" "odds a"] length_odds_le [of a] by linarith
  have d: "D \<le> int (length a)"
    unfolding D_def using range_removals_le [of "odds a" "evens a"] length_evens_le [of a] by linarith
  have ge: "below_sentinel (evens a) \<longleftrightarrow> evens a \<noteq> []"
    by (rule below_sentinel_evens)
  have go: "below_sentinel (odds a) \<longleftrightarrow> odds a \<noteq> []"
    using assms(3) below_sentinel_nonempty [of "odds a"] by (auto simp: below_sentinel_def)
  have s: "sint (solve n a) =
      (if odds a \<noteq> []
       then min (if evens a \<noteq> [] then min (int (length a)) E else int (length a)) D
       else (if evens a \<noteq> [] then min (int (length a)) E else int (length a)))"
    unfolding E_def D_def by (simp only: solve_sint [OF assms(1)] Let_def ge go)
  have c: "range_candidates a =
      (if evens a \<noteq> [] then [E] else []) @ (if odds a \<noteq> [] then [D] else [])"
    unfolding E_def D_def by (simp only: range_candidates_def)
  have p: "evens a \<noteq> [] \<or> odds a \<noteq> []"
    using assms(2) by (cases a) (auto simp: evens_def odds_def)
  show ?thesis
  proof (cases "evens a = []")
    case False
    note pe = False
    show ?thesis
    proof (cases "odds a = []")
      case False
      with pe e d show ?thesis by (simp add: s c min_def)
    next
      case True
      with pe e show ?thesis by (simp add: s c min_def)
    qed
  next
    case True
    with p have "odds a \<noteq> []" by simp
    with True d show ?thesis by (simp add: s c min_def)
  qed
qed

theorem answer_least_range_candidate_witness:
  "sint (solve 3 [3, 4, 5]) = 0 \<and> range_candidates [3, 4, 5] = [2, 0]"
  using answer_least_range_candidate [of 3 "[3, 4, 5]"]
  by (simp add: range_candidates_def range_removals_def outside_range_def
      evens_def odds_def INT_MAX_def)

subsection \<open>C2 and C3: the two worked examples\<close>

theorem example_five_counterexample: "sint (solve 5 [1, 3, 5, 2, 4]) \<noteq> 2"
  by (simp add: run_defs)

text \<open>
  C2 (amended). For the input sequence \<open>[1, 3, 5, 2, 4]\<close> with \<open>n = 5\<close> the program
  prints 0: no element is outside the odd range from 1 to 5, two elements (1 and 5) are
  outside the even range from 2 to 4, and the least of 5, 2 and 0 is taken.
\<close>

theorem example_five:
  "count_outside (minOdd (scan [1, 3, 5, 2, 4])) (maxOdd (scan [1, 3, 5, 2, 4])) [1, 3, 5, 2, 4] = 0 \<and>
   count_outside (minEven (scan [1, 3, 5, 2, 4])) (maxEven (scan [1, 3, 5, 2, 4])) [1, 3, 5, 2, 4] = 2 \<and>
   solve 5 [1, 3, 5, 2, 4] = 0 \<and>
   main (encode_batch [[1, 3, 5, 2, 4]]) = Inr [0]"
  by code_simp

theorem example_three_counterexample: "sint (solve 3 [1, 2, 3]) \<noteq> 1"
  by (simp add: run_defs)

text \<open>
  C3 (amended). For the input sequence \<open>[1, 2, 3]\<close> with \<open>n = 3\<close> the program prints
  0: no element is outside the odd range from 1 to 3, two elements (1 and 3) are outside
  the even range from 2 to 2, and the least of 3, 2 and 0 is taken.
\<close>

theorem example_three:
  "count_outside (minOdd (scan [1, 2, 3])) (maxOdd (scan [1, 2, 3])) [1, 2, 3] = 0 \<and>
   count_outside (minEven (scan [1, 2, 3])) (maxEven (scan [1, 2, 3])) [1, 2, 3] = 2 \<and>
   solve 3 [1, 2, 3] = 0 \<and>
   main (encode_batch [[1, 2, 3]]) = Inr [0]"
  by code_simp

subsection \<open>C4 and C5: one element, one parity\<close>

text \<open>
  A sequence of one parity whose elements are not all \<open>INT_MAX\<close> gives 0, and so
  does a single element other than \<open>INT_MAX\<close>. For the even class, which cannot
  hold \<open>INT_MAX\<close>, that is every sequence.
\<close>

lemma single_element_others:
  assumes "x \<noteq> INT_MAX"
  shows "solve 1 [x] = 0"
proof -
  have p: "below_sentinel [x]" using assms by (simp add: below_sentinel_def)
  have "sint (solve 1 [x]) = 0"
  proof (cases "even (sint x)")
    case True
    with p show ?thesis
      using solve_sint [of 1 "[x]"]
      by (simp add: evens_def odds_def range_removals_def Let_def below_sentinel_def)
  next
    case False
    with p show ?thesis
      using solve_sint [of 1 "[x]"]
      by (simp add: evens_def odds_def range_removals_def Let_def below_sentinel_def)
  qed
  then show ?thesis by (simp add: sint_zero_iff)
qed

lemma same_parity_others:
  assumes "sint n = int (length a)"
    and "(\<forall>x \<in> set a. even (sint x)) \<or> (\<forall>x \<in> set a. odd (sint x))"
    and "below_sentinel a"
  shows "solve n a = 0"
proof -
  have "sint (solve n a) = 0"
    using assms(2)
  proof
    assume "\<forall>x \<in> set a. even (sint x)"
    then have "evens a = a" "odds a = []"
      by (simp_all add: evens_def odds_def)
    with assms(3) show ?thesis
      by (simp add: solve_sint [OF assms(1)] range_removals_def Let_def below_sentinel_def)
  next
    assume "\<forall>x \<in> set a. odd (sint x)"
    then have "evens a = []" "odds a = a"
      by (simp_all add: evens_def odds_def)
    with assms(3) show ?thesis
      by (simp add: solve_sint [OF assms(1)] range_removals_def Let_def below_sentinel_def)
  qed
  then show ?thesis by (simp add: sint_zero_iff)
qed

lemma all_even_zero:
  assumes "sint n = int (length a)" and "a \<noteq> []" and "\<forall>x \<in> set a. even (sint x)"
  shows "solve n a = 0"
proof -
  from assms(2) obtain x where x: "x \<in> set a" by (cases a) auto
  with assms(3) have "x \<noteq> INT_MAX" using odd_INT_MAX by auto
  with x have "below_sentinel a" by (auto simp: below_sentinel_def)
  with assms(1,3) show ?thesis by (intro same_parity_others) simp_all
qed

text \<open>
  C4 (failing input). The claim asks for 0 on every sequence of length 1. On the
  sequence \<open>[INT_MAX]\<close> the odd minimum is the first value of \<open>minOdd\<close>, the guard
  of line 49 skips the pass of the odd class, and the program prints \<open>n = 1\<close>.
\<close>

theorem single_element_failing:
  "minOdd (scan [INT_MAX]) = INT_MAX \<and> solve 1 [INT_MAX] = 1 \<and>
   main (encode_batch [[INT_MAX]]) = Inr [1]"
  by code_simp

text \<open>
  C5 (failing input). The claim asks for 0 on every non-empty sequence of one parity. On
  the all-odd sequence \<open>[INT_MAX, INT_MAX]\<close> the same guard skips the pass of the odd
  class, and the program prints \<open>n = 2\<close>.
\<close>

theorem same_parity_failing:
  "odd (sint INT_MAX) \<and> minOdd (scan [INT_MAX, INT_MAX]) = INT_MAX \<and>
   solve 2 [INT_MAX, INT_MAX] = 2 \<and>
   main (encode_batch [[INT_MAX, INT_MAX]]) = Inr [2]"
  by code_simp

subsection \<open>C6: a class lies within its own bounds\<close>

text \<open>
  C6. Every even element lies between \<open>minEven\<close> and \<open>maxEven\<close> and every odd
  element between \<open>minOdd\<close> and \<open>maxOdd\<close>, so the pass of a class counts no
  element of that class: on the class itself it counts 0, and on the whole sequence it
  counts what it counts on the elements of the other parity.
\<close>

theorem class_within_bounds:
  "(\<forall>x \<in> set a. even (sint x) \<longrightarrow> minEven (scan a) \<le>s x \<and> x \<le>s maxEven (scan a)) \<and>
   (\<forall>x \<in> set a. odd (sint x) \<longrightarrow> minOdd (scan a) \<le>s x \<and> x \<le>s maxOdd (scan a)) \<and>
   count_outside (minEven (scan a)) (maxEven (scan a)) (evens a) = 0 \<and>
   count_outside (minOdd (scan a)) (maxOdd (scan a)) (odds a) = 0 \<and>
   count_outside (minEven (scan a)) (maxEven (scan a)) a
     = count_outside (minEven (scan a)) (maxEven (scan a)) (odds a) \<and>
   count_outside (minOdd (scan a)) (maxOdd (scan a)) a
     = count_outside (minOdd (scan a)) (maxOdd (scan a)) (evens a)"
proof (intro conjI ballI impI)
  fix x assume "x \<in> set a" "even (sint x)"
  then show "minEven (scan a) \<le>s x" "x \<le>s maxEven (scan a)"
    by (simp_all add: word_sle_eq scan_minEven_le scan_maxEven_ge)
next
  fix x assume "x \<in> set a" "odd (sint x)"
  then show "minOdd (scan a) \<le>s x" "x \<le>s maxOdd (scan a)"
    by (simp_all add: word_sle_eq scan_minOdd_le scan_maxOdd_ge)
next
  show "count_outside (minEven (scan a)) (maxEven (scan a)) (evens a) = 0"
    by (simp add: count_outside_filter even_pass_filter)
  show "count_outside (minOdd (scan a)) (maxOdd (scan a)) (odds a) = 0"
    by (simp add: count_outside_filter odd_pass_filter)
  show "count_outside (minEven (scan a)) (maxEven (scan a)) a
          = count_outside (minEven (scan a)) (maxEven (scan a)) (odds a)"
    using length_filter_parity [of "\<lambda>x. x <s minEven (scan a) \<or> maxEven (scan a) <s x" a]
    by (simp add: count_outside_filter even_pass_filter)
  show "count_outside (minOdd (scan a)) (maxOdd (scan a)) a
          = count_outside (minOdd (scan a)) (maxOdd (scan a)) (evens a)"
    using length_filter_parity [of "\<lambda>x. x <s minOdd (scan a) \<or> maxOdd (scan a) <s x" a]
    by (simp add: count_outside_filter odd_pass_filter)
qed

theorem class_within_bounds_witness:
  "minEven (scan [1, 2, 3]) \<le>s 2 \<and> 2 \<le>s maxEven (scan [1, 2, 3]) \<and>
   minOdd (scan [1, 2, 3]) \<le>s 1 \<and> 3 \<le>s maxOdd (scan [1, 2, 3]) \<and>
   count_outside (minEven (scan [1, 2, 3])) (maxEven (scan [1, 2, 3])) [2] = 0 \<and>
   count_outside (minOdd (scan [1, 2, 3])) (maxOdd (scan [1, 2, 3])) [1, 3] = 0"
  using class_within_bounds [of "[1, 2, 3]"]
  by (simp add: evens_def odds_def)

subsection \<open>C7: the test cases of a batch are independent\<close>

text \<open>
  C7. The printed answers are a function of the input, and the answer of a test case
  does not depend on the test cases before or after it: on a batch of test cases (each
  of a length that fits an \<open>int\<close>) the program prints, for each test case in
  order, the value of \<open>solve\<close> on that test case alone, which is also what it prints
  when that test case is the whole input.
\<close>

theorem batch_answers_independent:
  assumes "length cs < 2147483648" and "\<forall>c \<in> set cs. length c < 2147483648"
  shows "main (encode_batch cs) = Inr (map (\<lambda>c. solve (of_nat (length c)) c) cs) \<and>
         (\<forall>c \<in> set cs. main (encode_batch [c]) = Inr [solve (of_nat (length c)) c])"
proof
  show "main (encode_batch cs) = Inr (map (\<lambda>c. solve (of_nat (length c)) c) cs)"
    using assms by (rule main_batch)
  show "\<forall>c \<in> set cs. main (encode_batch [c]) = Inr [solve (of_nat (length c)) c]"
  proof
    fix c assume "c \<in> set cs"
    with assms(2) have "length c < 2147483648" by simp
    then show "main (encode_batch [c]) = Inr [solve (of_nat (length c)) c]"
      using main_batch [of "[c]"] by simp
  qed
qed

theorem batch_answers_independent_witness:
  "main (encode_batch [[1, 2, 3], [2147483647], [1, 2, 3]]) = Inr [0, 1, 0] \<and>
   main (encode_batch [[1, 2, 3]]) = Inr [0] \<and> main (encode_batch [[2147483647]]) = Inr [1]"
  using batch_answers_independent [of "[[1, 2, 3], [2147483647], [1, 2, 3]]"]
  by (simp add: solve_def scan_def scan_step_def init_bounds_def std_min_def std_max_def
      count_outside_def count_step_def INT_MAX_def INT_MIN_def word_sless_alt)

subsection \<open>C8: the empty test case\<close>

text \<open>
  C8. For a test case with \<open>n = 0\<close> both minima keep the value \<open>INT_MAX\<close>, so both
  guards fail, and the program prints 0, the first value of \<open>ans\<close>; the run ends
  without an error.
\<close>

theorem empty_case:
  "minEven (scan []) = INT_MAX \<and> minOdd (scan []) = INT_MAX \<and> solve 0 [] = 0 \<and>
   main [1, 0] = Inr [0]"
  by (simp add: main_def main_loop.simps read_case_def solve_def scan_def init_bounds_def INT_MAX_def INT_MIN_def word_sless_alt)

subsection \<open>C9: the answer is between 0 and n\<close>

text \<open>
  C9. For every test case (a vector of \<open>n\<close> elements, as \<open>read_case\<close> yields by
  \<open>read_case_length\<close>) the printed answer is at least 0 and at most \<open>n\<close>, and so is
  the count of every pass.
\<close>

theorem answer_bounds:
  assumes "sint n = int (length a)"
  shows "0 \<le>s solve n a \<and> solve n a \<le>s n \<and>
         0 \<le>s count_outside lo hi a \<and> count_outside lo hi a \<le>s n"
proof -
  have len: "length a < 2147483648"
    using assms by (rule length_of_sint)
  have e: "range_removals (evens a) (odds a) \<le> int (length a)"
    using range_removals_le [of "evens a" "odds a"] length_odds_le [of a] by linarith
  have d: "range_removals (odds a) (evens a) \<le> int (length a)"
    using range_removals_le [of "odds a" "evens a"] length_evens_le [of a] by linarith
  have "0 \<le> sint (solve n a)"
    using range_removals_ge [of "evens a" "odds a"] range_removals_ge [of "odds a" "evens a"]
    by (simp add: solve_sint [OF assms] Let_def)
  moreover have "sint (solve n a) \<le> sint n"
    using e d by (simp add: solve_sint [OF assms] Let_def assms min_def)
  moreover have "sint (count_outside lo hi a) \<le> sint n"
    using length_filter_le [of "\<lambda>x. x <s lo \<or> hi <s x" a]
    by (simp add: sint_count_outside [OF len] assms)
  moreover have "0 \<le> sint (count_outside lo hi a)"
    by (simp add: sint_count_outside [OF len])
  ultimately show ?thesis
    by (simp add: word_sle_eq)
qed

theorem answer_bounds_witness:
  "sint (3 :: cint) = int (length [1, 2, 3 :: cint]) \<and>
   0 \<le>s solve 3 [1, 2, 3] \<and> solve 3 [1, 2, 3] \<le>s 3 \<and>
   0 \<le>s count_outside 2 2 [1, 2, 3] \<and> count_outside 2 2 [1, 2, 3] \<le>s 3"
  using answer_bounds [of 3 "[1, 2, 3]" 2 2] by simp

subsection \<open>C10: the sentinel of the guards\<close>

text \<open>
  C10. A class gives a candidate exactly when its minimum differs from \<open>INT_MAX\<close>. For
  the even class that is when an even element exists; for the odd class it is when an odd
  element other than \<open>INT_MAX\<close> exists. So the answer is the least of \<open>n\<close>, of the
  count of the even pass when an even element exists, and of the count of the odd pass
  when an odd element other than \<open>INT_MAX\<close> exists; when every odd element is
  \<open>INT_MAX\<close> the odd class gives no candidate, even though odd elements may exist.
\<close>

theorem sentinel_guard:
  "(minEven (scan a) \<noteq> INT_MAX \<longleftrightarrow> (\<exists>x \<in> set a. even (sint x))) \<and>
   (minOdd (scan a) \<noteq> INT_MAX \<longleftrightarrow> (\<exists>x \<in> set a. odd (sint x) \<and> x \<noteq> INT_MAX)) \<and>
   solve n a =
     (let ans = (if \<exists>x \<in> set a. even (sint x)
                 then std_min n (count_outside (minEven (scan a)) (maxEven (scan a)) a)
                 else n)
      in if \<exists>x \<in> set a. odd (sint x) \<and> x \<noteq> INT_MAX
         then std_min ans (count_outside (minOdd (scan a)) (maxOdd (scan a)) a)
         else ans) \<and>
   ((\<forall>x \<in> set a. odd (sint x) \<longrightarrow> x = INT_MAX) \<longrightarrow>
      solve n a = (if \<exists>x \<in> set a. even (sint x)
                   then std_min n (count_outside (minEven (scan a)) (maxEven (scan a)) a)
                   else n))"
proof -
  have e: "minEven (scan a) \<noteq> INT_MAX \<longleftrightarrow> (\<exists>x \<in> set a. even (sint x))"
    by (simp add: even_guard evens_def filter_empty_conv)
  have o: "minOdd (scan a) \<noteq> INT_MAX \<longleftrightarrow> (\<exists>x \<in> set a. odd (sint x) \<and> x \<noteq> INT_MAX)"
    by (auto simp: odd_guard below_sentinel_def odds_def)
  have s: "solve n a =
     (let ans = (if \<exists>x \<in> set a. even (sint x)
                 then std_min n (count_outside (minEven (scan a)) (maxEven (scan a)) a)
                 else n)
      in if \<exists>x \<in> set a. odd (sint x) \<and> x \<noteq> INT_MAX
         then std_min ans (count_outside (minOdd (scan a)) (maxOdd (scan a)) a)
         else ans)"
    unfolding solve_def Let_def by (simp only: e o)
  have "solve n a = (if \<exists>x \<in> set a. even (sint x)
                   then std_min n (count_outside (minEven (scan a)) (maxEven (scan a)) a)
                   else n)" if "\<forall>x \<in> set a. odd (sint x) \<longrightarrow> x = INT_MAX"
  proof -
    from that have "\<not> (\<exists>x \<in> set a. odd (sint x) \<and> x \<noteq> INT_MAX)" by blast
    then show ?thesis
      by (simp only: s Let_def if_False)
  qed
  with e o s show ?thesis by blast
qed

theorem sentinel_guard_witness:
  "(\<exists>x \<in> set [2147483647, 2, 2147483647 :: cint]. odd (sint x)) \<and>
   minOdd (scan [2147483647, 2, 2147483647]) = INT_MAX \<and>
   solve 3 [2147483647, 2, 2147483647] = 2 \<and>
   minOdd (scan [1, 2, 3]) \<noteq> INT_MAX \<and>
   solve 3 [1, 2, 3] = std_min 2 (count_outside 1 3 [1, 2, 3]) \<and> solve 3 [1, 2, 3] = 0"
  using sentinel_guard [of "[2147483647, 2, 2147483647]" 3] sentinel_guard [of "[1, 2, 3]" 3]
  by (simp add: INT_MAX_def INT_MIN_def std_min_def std_max_def count_outside_def count_step_def
      scan_def scan_step_def init_bounds_def word_sless_alt)

end
